theory Spec2Isabelle
  imports Complex_Main "HOL-Library.Sublist"
begin

section \<open>Strings of the script\<close>

text \<open>
  A JavaScript string is a sequence of UTF-16 code units. This development covers the
  queries whose code units are below 256 (ASCII and the Latin-1 supplement): a code unit
  is a \<^typ>\<open>char\<close>, a string a \<^typ>\<open>string\<close>. On that range
  \<^verbatim>\<open>toLowerCase\<close> maps one code unit to one code unit, and the white space of
  \<^verbatim>\<open>trim\<close> and of the pattern class \<^verbatim>\<open>\s\<close> is the seven code units below.
\<close>

definition inRange :: "nat \<Rightarrow> nat \<Rightarrow> char \<Rightarrow> bool" where
  "inRange lo hi c = (lo \<le> (of_char c :: nat) \<and> (of_char c :: nat) \<le> hi)"

text \<open>\<^verbatim>\<open>A\<close>-\<^verbatim>\<open>Z\<close> and the capital letters U+00C0-U+00DE (U+00D7, the
  multiplication sign, apart) have their small letter 32 code units further.\<close>

definition isUpper :: "char \<Rightarrow> bool" where
  "isUpper c = (inRange 65 90 c \<or> (inRange 192 222 c \<and> (of_char c :: nat) \<noteq> 215))"

definition lowerChar :: "char \<Rightarrow> char" where
  "lowerChar c = (if isUpper c then char_of ((of_char c :: nat) + 32) else c)"

definition toLowerCase :: "string \<Rightarrow> string" where
  "toLowerCase s = map lowerChar s"

text \<open>TAB, LF, VT, FF, CR, SP and NBSP.\<close>

definition isWhiteSpace :: "char \<Rightarrow> bool" where
  "isWhiteSpace c = ((of_char c :: nat) \<in> {9, 10, 11, 12, 13, 32, 160})"

definition trim :: "string \<Rightarrow> string" where
  "trim s = rev (dropWhile isWhiteSpace (rev (dropWhile isWhiteSpace s)))"

text \<open>\<^verbatim>\<open>s.includes(k)\<close>: \<open>k\<close> starts at some position of \<open>s\<close>.\<close>

fun js_includes :: "string \<Rightarrow> string \<Rightarrow> bool" where
  "js_includes [] k = (k = [])"
| "js_includes (c # cs) k = (prefix k (c # cs) \<or> js_includes cs k)"

text \<open>\<^verbatim>\<open>key.split(' ')\<close>: the pieces between single spaces; two spaces in a row, or
  a space at an end, give an empty piece.\<close>

fun js_split :: "string \<Rightarrow> string list" where
  "js_split [] = [[]]"
| "js_split (c # cs) =
     (if c = CHR '' '' then [] # js_split cs
      else (case js_split cs of w # ws \<Rightarrow> (c # w) # ws | [] \<Rightarrow> [[c]]))"

section \<open>Patterns\<close>

text \<open>
  The three patterns of the script use literal text, \<^verbatim>\<open>\s*\<close>, alternation, grouping,
  \<^verbatim>\<open>^\<close> and \<^verbatim>\<open>\b\<close>, with no flag. A position is the code unit before it (if any)
  and the input that remains; \<open>rmatch r p\<close> lists the positions where a match of \<open>r\<close>
  that starts at \<open>p\<close> can end. \<^verbatim>\<open>test\<close> only asks whether some match exists, so
  the order in which a backtracking matcher tries them does not matter.
\<close>

datatype rx = Lit string | WsStar | Alt "rx list" | Seq "rx list" | Bol | WordB

type_synonym pos = "char option \<times> string"

text \<open>\<^verbatim>\<open>\w\<close> is \<^verbatim>\<open>[A-Za-z0-9_]\<close>.\<close>

definition isWordChar :: "char \<Rightarrow> bool" where
  "isWordChar c = (inRange 48 57 c \<or> inRange 65 90 c \<or> (of_char c :: nat) = 95 \<or> inRange 97 122 c)"

definition wordBefore :: "pos \<Rightarrow> bool" where
  "wordBefore p = (case fst p of None \<Rightarrow> False | Some c \<Rightarrow> isWordChar c)"

definition wordAfter :: "pos \<Rightarrow> bool" where
  "wordAfter p = (case snd p of [] \<Rightarrow> False | c # _ \<Rightarrow> isWordChar c)"

fun lit_match :: "string \<Rightarrow> pos \<Rightarrow> pos list" where
  "lit_match [] p = [p]"
| "lit_match (c # cs) (prev, []) = []"
| "lit_match (c # cs) (prev, d # ds) = (if c = d then lit_match cs (Some d, ds) else [])"

fun ws_star :: "char option \<Rightarrow> string \<Rightarrow> pos list" where
  "ws_star prev [] = [(prev, [])]"
| "ws_star prev (d # ds) =
     (prev, d # ds) # (if isWhiteSpace d then ws_star (Some d) ds else [])"

fun rmatch :: "rx \<Rightarrow> pos \<Rightarrow> pos list" where
  "rmatch (Lit s) p = lit_match s p"
| "rmatch WsStar p = ws_star (fst p) (snd p)"
| "rmatch (Alt rs) p = concat (map (\<lambda>r. rmatch r p) rs)"
| "rmatch (Seq rs) p = fold (\<lambda>r ps. concat (map (rmatch r) ps)) rs [p]"
| "rmatch Bol p = (if fst p = None then [p] else [])"
| "rmatch WordB p = (if wordBefore p \<noteq> wordAfter p then [p] else [])"

text \<open>\<^verbatim>\<open>re.test(s)\<close>: a match starting at some position of \<open>s\<close>, the end included.\<close>

fun search :: "rx \<Rightarrow> char option \<Rightarrow> string \<Rightarrow> bool" where
  "search r prev [] = (rmatch r (prev, []) \<noteq> [])"
| "search r prev (c # cs) = (rmatch r (prev, c # cs) \<noteq> [] \<or> search r (Some c) cs)"

definition test :: "rx \<Rightarrow> string \<Rightarrow> bool" where
  "test r s = search r None s"

section \<open>The knowledge base\<close>

text \<open>
  The answer bodies are long template literals (none has a substitution, none is empty)
  that the matching never inspects. Each is named by a constructor: \<open>KbAnswer k\<close> is the
  \<^verbatim>\<open>answer\<close> literal under key \<open>k\<close> of \<^verbatim>\<open>knowledgeBase\<close>, \<open>ExtText k\<close> the
  \<^verbatim>\<open>text\<close> literal under key \<open>k\<close> of \<^verbatim>\<open>extendedTopics\<close>, the next three the literals of
  the greeting, thanks and identity branches, and \<open>FallbackReply pick\<close> the fallback template
  with \<open>pick\<close> substituted. The variable \<^verbatim>\<open>response\<close> holds \<^verbatim>\<open>null\<close> (\<open>None\<close>) or one of
  these non-empty strings, so \<^verbatim>\<open>!response\<close> is true exactly for \<open>None\<close>.
\<close>

datatype body =
    KbAnswer string
  | ExtText string
  | GreetingReply
  | ThanksReply
  | IdentityReply
  | FallbackReply string

record 'a entry =
  answer :: 'a
  confidence :: real
  topic :: string

text \<open>\<^verbatim>\<open>Object.entries(knowledgeBase)\<close>: no key is an array index and no key is repeated,
  so the pairs come in the order the literal lists them.\<close>

definition knowledgeBase :: "(string \<times> body entry) list" where
  "knowledgeBase =
    [
     (''binary search tree'', \<lparr>answer = KbAnswer ''binary search tree'', confidence = 0.95, topic = ''Data Structures''\<rparr>),
     (''quick sort'', \<lparr>answer = KbAnswer ''quick sort'', confidence = 0.94, topic = ''Algorithms''\<rparr>),
     (''merge sort'', \<lparr>answer = KbAnswer ''merge sort'', confidence = 0.93, topic = ''Algorithms''\<rparr>),
     (''linked list'', \<lparr>answer = KbAnswer ''linked list'', confidence = 0.92, topic = ''Data Structures''\<rparr>),
     (''hash table'', \<lparr>answer = KbAnswer ''hash table'', confidence = 0.94, topic = ''Data Structures''\<rparr>),
     (''stack'', \<lparr>answer = KbAnswer ''stack'', confidence = 0.95, topic = ''Data Structures''\<rparr>),
     (''queue'', \<lparr>answer = KbAnswer ''queue'', confidence = 0.94, topic = ''Data Structures''\<rparr>),
     (''graph'', \<lparr>answer = KbAnswer ''graph'', confidence = 0.93, topic = ''Data Structures''\<rparr>),
     (''heap'', \<lparr>answer = KbAnswer ''heap'', confidence = 0.92, topic = ''Data Structures''\<rparr>),
     (''first law of thermodynamics'', \<lparr>answer = KbAnswer ''first law of thermodynamics'', confidence = 0.95, topic = ''Thermodynamics''\<rparr>),
     (''second law of thermodynamics'', \<lparr>answer = KbAnswer ''second law of thermodynamics'', confidence = 0.94, topic = ''Thermodynamics''\<rparr>),
     (''carnot cycle'', \<lparr>answer = KbAnswer ''carnot cycle'', confidence = 0.93, topic = ''Thermodynamics''\<rparr>),
     (''entropy'', \<lparr>answer = KbAnswer ''entropy'', confidence = 0.92, topic = ''Thermodynamics''\<rparr>),
     (''fourier transform'', \<lparr>answer = KbAnswer ''fourier transform'', confidence = 0.94, topic = ''Signal Processing''\<rparr>),
     (''nyquist theorem'', \<lparr>answer = KbAnswer ''nyquist theorem'', confidence = 0.93, topic = ''Signal Processing''\<rparr>),
     (''convolution'', \<lparr>answer = KbAnswer ''convolution'', confidence = 0.92, topic = ''Signal Processing''\<rparr>),
     (''recursion'', \<lparr>answer = KbAnswer ''recursion'', confidence = 0.95, topic = ''Programming''\<rparr>),
     (''big o notation'', \<lparr>answer = KbAnswer ''big o notation'', confidence = 0.94, topic = ''Algorithms''\<rparr>),
     (''dynamic programming'', \<lparr>answer = KbAnswer ''dynamic programming'', confidence = 0.93, topic = ''Algorithms''\<rparr>),
     (''what is'', \<lparr>answer = KbAnswer ''what is'', confidence = 0.7, topic = ''General''\<rparr>),
     (''how does'', \<lparr>answer = KbAnswer ''how does'', confidence = 0.7, topic = ''General''\<rparr>),
     (''explain'', \<lparr>answer = KbAnswer ''explain'', confidence = 0.7, topic = ''General''\<rparr>),
     (''help'', \<lparr>answer = KbAnswer ''help'', confidence = 0.85, topic = ''General''\<rparr>)
    ]"

text \<open>The entries of \<^verbatim>\<open>extendedTopics\<close>, with their fields \<^verbatim>\<open>text\<close>, \<^verbatim>\<open>conf\<close> and
  \<^verbatim>\<open>top\<close>, in the order of the literal.\<close>

record ext_entry =
  text_e :: body
  conf :: real
  top_e :: string

definition extendedTopics :: "(string \<times> ext_entry) list" where
  "extendedTopics =
    [
     (''array'', \<lparr>text_e = ExtText ''array'', conf = 0.9, top_e = ''Data Structures''\<rparr>),
     (''pointer'', \<lparr>text_e = ExtText ''pointer'', conf = 0.88, top_e = ''Programming''\<rparr>),
     (''oop'', \<lparr>text_e = ExtText ''oop'', conf = 0.92, top_e = ''Programming''\<rparr>),
     (''sql'', \<lparr>text_e = ExtText ''sql'', conf = 0.9, top_e = ''Databases''\<rparr>),
     (''complexity'', \<lparr>text_e = ExtText ''complexity'', conf = 0.91, top_e = ''Algorithms''\<rparr>),
     (''bfs'', \<lparr>text_e = ExtText ''bfs'', conf = 0.92, top_e = ''Algorithms''\<rparr>),
     (''dfs'', \<lparr>text_e = ExtText ''dfs'', conf = 0.92, top_e = ''Algorithms''\<rparr>),
     (''binary search'', \<lparr>text_e = ExtText ''binary search'', conf = 0.94, top_e = ''Algorithms''\<rparr>)
    ]"

section \<open>The response generator\<close>

text \<open>The locals \<^verbatim>\<open>response\<close>, \<^verbatim>\<open>confidence\<close> and \<^verbatim>\<open>topic\<close> are threaded through the
  branches as one record, \<^verbatim>\<open>response\<close> in the field \<open>answer\<close> under which it is
  resolved at the end.\<close>

type_synonym vars = "body option entry"

definition initial :: vars where
  "initial = \<lparr>answer = None, confidence = 0.85, topic = ''General''\<rparr>"

text \<open>The body of the timer callback follows, one definition for each of its commented
  parts: the scoring loop over the knowledge base, the extended keyword detection, the
  greeting, thanks and identity checks, and the fallback.\<close>

definition keyScore :: "string \<Rightarrow> string \<Rightarrow> nat" where
  "keyScore lowerQuery key =
     (let keyWords = js_split key in
      if js_includes lowerQuery key then length keyWords * 3
      else fold (\<lambda>word score. if js_includes lowerQuery word then score + 1 else score)
             keyWords 0)"

fun kbLoop ::
  "string \<Rightarrow> (string \<times> body entry) list \<Rightarrow> body entry option \<times> nat \<Rightarrow> body entry option \<times> nat"
where
  "kbLoop lowerQuery [] best = best"
| "kbLoop lowerQuery ((key, value) # rest) (bestMatch, bestScore) =
     (let score = keyScore lowerQuery key in
      if score > bestScore then kbLoop lowerQuery rest (Some value, score)
      else kbLoop lowerQuery rest (bestMatch, bestScore))"

definition primaryStage :: "string \<Rightarrow> vars" where
  "primaryStage lowerQuery =
     (case kbLoop lowerQuery knowledgeBase (None, 0) of
        (Some bestMatch, bestScore) \<Rightarrow>
          if bestScore \<ge> 1
          then \<lparr>answer = Some (answer bestMatch), confidence = confidence bestMatch,
                topic = topic bestMatch\<rparr>
          else initial
      | (None, bestScore) \<Rightarrow> initial)"

fun extLoop :: "string \<Rightarrow> (string \<times> ext_entry) list \<Rightarrow> vars \<Rightarrow> vars" where
  "extLoop lowerQuery [] st = st"
| "extLoop lowerQuery ((kw, data) # rest) st =
     (if js_includes lowerQuery kw
      then \<lparr>answer = Some (text_e data), confidence = conf data, topic = top_e data\<rparr>
      else extLoop lowerQuery rest st)"

definition secondaryStage :: "string \<Rightarrow> vars \<Rightarrow> vars" where
  "secondaryStage lowerQuery st =
     (if answer st = None then extLoop lowerQuery extendedTopics st else st)"

text \<open>\<^verbatim>\<open>/^(hi|hello|hey|good\s*(morning|afternoon|evening)|howdy|sup)\b/\<close>, with its
  parenthesised group named.\<close>

definition greeting_group :: rx where
  "greeting_group =
     Alt [Lit ''hi'', Lit ''hello'', Lit ''hey'',
          Seq [Lit ''good'', WsStar,
               Alt [Lit ''morning'', Lit ''afternoon'', Lit ''evening'']],
          Lit ''howdy'', Lit ''sup'']"

definition greeting_re :: rx where
  "greeting_re = Seq [Bol, greeting_group, WordB]"

text \<open>\<^verbatim>\<open>/thank|thanks|thx|appreciate/\<close>\<close>

definition thanks_re :: rx where
  "thanks_re = Alt [Lit ''thank'', Lit ''thanks'', Lit ''thx'', Lit ''appreciate'']"

text \<open>\<^verbatim>\<open>/who\s*(are|r)\s*you|what\s*(are|r)\s*you|your\s*name|about\s*you/\<close>\<close>

definition identity_re :: rx where
  "identity_re =
     Alt [Seq [Lit ''who'', WsStar, Alt [Lit ''are'', Lit ''r''], WsStar, Lit ''you''],
          Seq [Lit ''what'', WsStar, Alt [Lit ''are'', Lit ''r''], WsStar, Lit ''you''],
          Seq [Lit ''your'', WsStar, Lit ''name''],
          Seq [Lit ''about'', WsStar, Lit ''you'']]"

definition override :: "body \<Rightarrow> vars" where
  "override b = \<lparr>answer = Some b, confidence = 0.98, topic = ''General''\<rparr>"

definition greetingStage :: "string \<Rightarrow> vars \<Rightarrow> vars" where
  "greetingStage lowerQuery st =
     (if test greeting_re lowerQuery then override GreetingReply else st)"

definition thanksStage :: "string \<Rightarrow> vars \<Rightarrow> vars" where
  "thanksStage lowerQuery st =
     (if test thanks_re lowerQuery then override ThanksReply else st)"

definition identityStage :: "string \<Rightarrow> vars \<Rightarrow> vars" where
  "identityStage lowerQuery st =
     (if test identity_re lowerQuery then override IdentityReply else st)"

definition suggestions :: "string list" where
  "suggestions = [''Binary Search Tree'', ''Quick Sort'', ''Thermodynamics'',
                  ''Fourier Transform'', ''Dynamic Programming'', ''Big O Notation'']"

text \<open>\<^verbatim>\<open>suggestions[Math.floor(rnd * suggestions.length)]\<close>, with \<open>rnd\<close> the value that
  \<^verbatim>\<open>Math.random()\<close> returned; an index outside the array reads \<^verbatim>\<open>undefined\<close>, which the
  template prints as that word. The product is taken over the reals, where the script
  multiplies in double precision: for a value within one rounding step below a multiple of
  1/6 (0.8333333333333333, say) the script can name the next suggestion where this function
  names the previous one. Which of the six suggestions is named is the only difference, and
  no statement below depends on it; the same holds for the delay.\<close>

definition pickSuggestion :: "real \<Rightarrow> string" where
  "pickSuggestion rnd =
     (let i = \<lfloor>rnd * real (length suggestions)\<rfloor> in
      if 0 \<le> i \<and> i < int (length suggestions) then suggestions ! nat i
      else ''undefined'')"

definition fallbackStage :: "real \<Rightarrow> vars \<Rightarrow> vars" where
  "fallbackStage rnd st =
     (if answer st = None
      then st\<lparr>answer := Some (FallbackReply (pickSuggestion rnd)), confidence := 0.65\<rparr>
      else st)"

text \<open>The value the promise is resolved with, and the promise: it resolves \<open>after_ms\<close>
  milliseconds later. \<open>rndDelay\<close> and \<open>rndPick\<close> are the two values \<^verbatim>\<open>Math.random()\<close>
  returns, in the order of the calls.\<close>

record 'a reply = "'a entry" +
  isLocal :: bool

record promise =
  after_ms :: real
  resolved :: "body option reply"

definition normalize :: "string \<Rightarrow> string" where
  "normalize query = trim (toLowerCase query)"

definition generateAIResponse :: "string \<Rightarrow> 'h \<Rightarrow> real \<Rightarrow> real \<Rightarrow> promise" where
  "generateAIResponse query conversationHistory rndDelay rndPick =
     (let lowerQuery = normalize query;
          thinkingTime = 800 + rndDelay * 1200;
          st = fallbackStage rndPick
                 (identityStage lowerQuery
                   (thanksStage lowerQuery
                     (greetingStage lowerQuery
                       (secondaryStage lowerQuery
                         (primaryStage lowerQuery)))))
      in \<lparr>after_ms = thinkingTime,
          resolved = \<lparr>answer = answer st, confidence = confidence st, topic = topic st,
                       isLocal = True\<rparr>\<rparr>)"

section \<open>What the specification says, in its own words\<close>

text \<open>The constituent words of a phrase, stated without the script's \<^verbatim>\<open>split\<close>: the
  text before the first space is a word, and the words of what follows that space are the
  others; a phrase without a space is one word.\<close>

definition isSpace :: "char \<Rightarrow> bool" where
  "isSpace c \<longleftrightarrow> c = CHR '' ''"

function spec_words :: "string \<Rightarrow> string list" where
  "spec_words s =
     (case dropWhile (\<lambda>c. \<not> isSpace c) s of
        [] \<Rightarrow> [s]
      | sp # rest \<Rightarrow> takeWhile (\<lambda>c. \<not> isSpace c) s # spec_words rest)"
  by pat_completeness auto
termination
proof (relation "measure length")
  show "wf (measure length)" by simp
next
  fix s :: string and sp rest
  assume "dropWhile (\<lambda>c. \<not> isSpace c) s = sp # rest"
  then have "length (sp # rest) \<le> length s"
    by (metis length_dropWhile_le)
  then show "(rest, s) \<in> measure length" by simp
qed

declare spec_words.simps [simp del]

text \<open>The score of the specification: three points a word for a key the query contains
  whole, otherwise one point for each word of the key the query contains.\<close>

definition spec_score :: "string \<Rightarrow> string \<Rightarrow> nat" where
  "spec_score q key =
     (if sublist key q then length (spec_words key) * 3
      else length (filter (\<lambda>w. sublist w q) (spec_words key)))"

text \<open>The choice of the specification: the first entry, in table order, that reaches the
  highest score, when that score is at least 1.\<close>

definition spec_primary :: "string \<Rightarrow> (string \<times> 'e) list \<Rightarrow> 'e option" where
  "spec_primary q table =
     (let best = Max (set (0 # map (\<lambda>(k, v). spec_score q k) table)) in
      if best \<ge> 1 then map_option snd (find (\<lambda>(k, v). spec_score q k = best) table)
      else None)"

text \<open>What the primary branch assigns when it reports entry \<open>e\<close>.\<close>

definition reported :: "body entry \<Rightarrow> vars" where
  "reported e = \<lparr>answer = Some (answer e), confidence = confidence e, topic = topic e\<rparr>"

text \<open>The overrides in the order the script checks them, and those whose pattern matches
  a normalized query.\<close>

definition overrides :: "(rx \<times> body) list" where
  "overrides = [(greeting_re, GreetingReply), (thanks_re, ThanksReply),
                (identity_re, IdentityReply)]"

definition applicable :: "string \<Rightarrow> (rx \<times> body) list" where
  "applicable q = filter (\<lambda>(re, b). test re q) overrides"

text \<open>The locals after the two table lookups, and the object the promise is resolved
  with, as abbreviations for the statements below.\<close>

definition tables :: "string \<Rightarrow> vars" where
  "tables q = secondaryStage q (primaryStage q)"

definition finish :: "vars \<Rightarrow> body option reply" where
  "finish st = \<lparr>answer = answer st, confidence = confidence st, topic = topic st,
                isLocal = True\<rparr>"

text \<open>Some primary entry scores at least 1 on a normalized query; some extended keyword
  occurs in it; nothing at all matches it (neither of these, and no override pattern).\<close>

definition primaryHit :: "string \<Rightarrow> bool" where
  "primaryHit q \<longleftrightarrow> (\<exists>(k, v)\<in>set knowledgeBase. 1 \<le> keyScore q k)"

definition extendedHit :: "string \<Rightarrow> bool" where
  "extendedHit q \<longleftrightarrow> (\<exists>(kw, d)\<in>set extendedTopics. js_includes q kw)"

definition noMatch :: "string \<Rightarrow> bool" where
  "noMatch q \<longleftrightarrow>
     \<not> primaryHit q \<and> \<not> extendedHit q
   \<and> \<not> test greeting_re q \<and> \<not> test thanks_re q \<and> \<not> test identity_re q"

text \<open>A response that is still \<^verbatim>\<open>null\<close> or comes from one of the two tables.\<close>

fun tableText :: "body option \<Rightarrow> bool" where
  "tableText None = True"
| "tableText (Some (KbAnswer k)) = True"
| "tableText (Some (ExtText k)) = True"
| "tableText (Some b) = False"

section \<open>Notions used in the statements\<close>

text \<open>A pattern whose letters are all small, tried on a string without regard to case:
  the string is put in lower case, and nothing else about it is changed.\<close>

definition test_ci :: "rx \<Rightarrow> string \<Rightarrow> bool" where
  "test_ci re s = test re (toLowerCase s)"

text \<open>The greeting tokens: the words the group of the greeting pattern stands for, that
  is the five plain words, and \<^verbatim>\<open>good\<close> followed by any white space and a time of day.\<close>

definition simpleTokens :: "string list" where
  "simpleTokens = [''hi'', ''hello'', ''hey'', ''howdy'', ''sup'']"

definition daytime :: "string \<Rightarrow> bool" where
  "daytime t \<longleftrightarrow> t \<in> set [''morning'', ''afternoon'', ''evening'']"

definition greetingToken :: "string \<Rightarrow> bool" where
  "greetingToken tok \<longleftrightarrow>
     tok \<in> set simpleTokens
   \<or> (prefix ''good'' tok \<and> daytime (dropWhile isWhiteSpace (drop 4 tok)))"

text \<open>The key scores at least as much as every entry, and strictly more than every entry
  listed before it.\<close>

definition firstBest :: "string \<Rightarrow> string \<Rightarrow> bool" where
  "firstBest q key \<longleftrightarrow>
     list_all (\<lambda>(k, v). keyScore q k \<le> keyScore q key) knowledgeBase
   \<and> list_all (\<lambda>(k, v). keyScore q k < keyScore q key)
         (takeWhile (\<lambda>(k, v). k \<noteq> key) knowledgeBase)"

section \<open>Strings and scores\<close>

lemma js_includes_sublist: "js_includes s k \<longleftrightarrow> sublist k s"
  by (induction s) (auto simp: sublist_Cons_right)

lemma fold_count:
  "fold (\<lambda>w s. if P w then s + 1 else s) ws n = n + length (filter P ws)"
  by (induction ws arbitrary: n) auto

lemma js_split_nonempty: "js_split s \<noteq> []"
  by (induction s) (auto split: list.splits)

lemma js_split_spec_words: "js_split s = spec_words s"
proof (induction s)
  case Nil
  have "spec_words [] = [[]]" by (subst spec_words.simps) simp
  then show ?case by simp
next
  case (Cons c cs)
  let ?P = "\<lambda>c. \<not> isSpace c"
  show ?case
  proof (cases "isSpace c")
    case True
    have "spec_words (c # cs) = [] # spec_words cs"
      by (subst spec_words.simps) (simp add: True)
    with True Cons.IH show ?thesis by (simp add: isSpace_def)
  next
    case False
    have d: "dropWhile ?P (c # cs) = dropWhile ?P cs"
      "takeWhile ?P (c # cs) = c # takeWhile ?P cs"
      using False by simp_all
    have e: "spec_words (c # cs) =
        (case dropWhile ?P cs of
           [] \<Rightarrow> [c # cs]
         | sp # rest \<Rightarrow> (c # takeWhile ?P cs) # spec_words rest)"
      by (subst spec_words.simps) (simp only: d)
    have f: "spec_words cs =
        (case dropWhile ?P cs of
           [] \<Rightarrow> [cs]
         | sp # rest \<Rightarrow> takeWhile ?P cs # spec_words rest)"
      by (rule spec_words.simps)
    from False have ne: "c \<noteq> CHR '' ''" by (simp add: isSpace_def)
    note IH = Cons.IH
    show ?thesis
    proof (cases "dropWhile ?P cs")
      case Nil
      with e f have "spec_words (c # cs) = [c # cs]" "spec_words cs = [cs]"
        by simp_all
      with IH ne show ?thesis by simp
    next
      case (Cons sp rest)
      with e f have "spec_words (c # cs) = (c # takeWhile ?P cs) # spec_words rest"
        "spec_words cs = takeWhile ?P cs # spec_words rest"
        by simp_all
      with IH ne show ?thesis by simp
    qed
  qed
qed

lemma keyScore_spec: "keyScore q key = spec_score q key"
  by (simp add: keyScore_def spec_score_def fold_count js_includes_sublist
      js_split_spec_words)

section \<open>The primary loop\<close>

text \<open>The loop keeps the running best until an entry beats it strictly: started from
  \<open>(bm, bs)\<close> it ends with the first entry that reaches the maximum, if the maximum
  exceeds \<open>bs\<close>.\<close>

lemma kbLoop_best:
  "kbLoop q es (bm, bs) =
     (let m = Max (set (bs # map (\<lambda>(k, v). keyScore q k) es)) in
      if m > bs then (map_option snd (find (\<lambda>(k, v). keyScore q k = m) es), m)
      else (bm, bs))"
proof (induction es arbitrary: bm bs)
  case Nil
  then show ?case by simp
next
  case (Cons e es)
  obtain k v where e: "e = (k, v)" by (cases e)
  let ?S = "set (map (\<lambda>(k, v). keyScore q k) es)"
  let ?s = "keyScore q k"
  have M: "Max (insert bs (insert ?s ?S)) = max ?s (Max (insert bs ?S))"
    using Max_insert[of "insert bs ?S" ?s] by (simp add: insert_commute)
  have ge: "bs \<le> Max (insert bs ?S)" "?s \<le> Max (insert ?s ?S)" by simp_all
  have Mi: "\<And>a. Max (insert a ?S) = (if ?S = {} then a else max a (Max ?S))"
    by simp
  show ?case
  proof (cases "?s > bs")
    case True
    then have "Max (insert ?s ?S) = max ?s (Max (insert bs ?S))"
      unfolding Mi by (auto simp: max_def)
    with True M ge show ?thesis
      by (auto simp: e Cons.IH Let_def)
  next
    case False
    then show ?thesis using ge M
      by (auto simp: e Cons.IH Let_def max_def)
  qed
qed

section \<open>The stages\<close>

lemma kbLoop_cases:
  "(kbLoop q es (bm, bs) = (bm, bs) \<and> (\<forall>(k, v)\<in>set es. keyScore q k \<le> bs))
   \<or> (\<exists>(k, v)\<in>set es. bs < keyScore q k \<and> kbLoop q es (bm, bs) = (Some v, keyScore q k))"
proof (induction es arbitrary: bm bs)
  case Nil
  then show ?case by simp
next
  case (Cons e es)
  obtain k v where e: "e = (k, v)" by (cases e)
  show ?case
  proof (cases "bs < keyScore q k")
    case True
    from Cons.IH[of "Some v" "keyScore q k"] True show ?thesis
      by (fastforce simp: e Let_def)
  next
    case False
    from Cons.IH[of bm bs] False show ?thesis
      by (fastforce simp: e Let_def)
  qed
qed

lemma primaryStage_cases:
  "(primaryStage q = initial \<and> \<not> primaryHit q)
   \<or> (\<exists>(k, v)\<in>set knowledgeBase. primaryHit q \<and> primaryStage q = reported v)"
  using kbLoop_cases[of q knowledgeBase None 0]
  by (fastforce simp: primaryStage_def reported_def primaryHit_def)

lemma extLoop_find:
  "extLoop q es st =
     (case find (\<lambda>(kw, d). js_includes q kw) es of
        None \<Rightarrow> st
      | Some (kw, d) \<Rightarrow> \<lparr>answer = Some (text_e d), confidence = conf d, topic = top_e d\<rparr>)"
  by (induction es) auto

lemma answer_initial: "answer initial = None"
  by (simp add: initial_def)

lemma answer_reported: "answer (reported e) \<noteq> None"
  by (simp add: reported_def)

lemma kb_answers: "(k, v) \<in> set knowledgeBase \<Longrightarrow> answer v = KbAnswer k"
  by (auto simp: knowledgeBase_def)

lemma ext_texts: "(kw, d) \<in> set extendedTopics \<Longrightarrow> text_e d = ExtText kw"
  by (auto simp: extendedTopics_def)

lemma find_none_iff: "find P xs = None \<longleftrightarrow> (\<forall>x\<in>set xs. \<not> P x)"
  by (induction xs) auto

lemma find_some_mem: "find P xs = Some x \<Longrightarrow> x \<in> set xs \<and> P x"
  by (induction xs) (auto split: if_splits)

lemma tables_cases:
  "(tables q = initial \<and> \<not> primaryHit q \<and> \<not> extendedHit q)
   \<or> (\<exists>b. tables q = \<lparr>answer = Some b, confidence = confidence (tables q),
                        topic = topic (tables q)\<rparr> \<and> tableText (Some b)
          \<and> (primaryHit q \<or> extendedHit q))"
proof -
  from primaryStage_cases[of q] show ?thesis
  proof
    assume p: "primaryStage q = initial \<and> \<not> primaryHit q"
    show ?thesis
    proof (cases "find (\<lambda>(kw, d). js_includes q kw) extendedTopics")
      case None
      then have "\<not> extendedHit q"
        by (auto simp: find_none_iff extendedHit_def)
      with p None show ?thesis
        by (simp add: tables_def secondaryStage_def answer_initial extLoop_find)
    next
      case (Some a)
      obtain kw d where a: "a = (kw, d)" by (cases a)
      from find_some_mem[OF Some] have m: "(kw, d) \<in> set extendedTopics" "js_includes q kw"
        by (simp_all add: a)
      then have "extendedHit q" by (auto simp: extendedHit_def)
      with p Some a ext_texts[OF m(1)] show ?thesis
        by (simp add: tables_def secondaryStage_def answer_initial extLoop_find)
    qed
  next
    assume "\<exists>(k, v)\<in>set knowledgeBase. primaryHit q \<and> primaryStage q = reported v"
    then obtain k v where kv: "(k, v) \<in> set knowledgeBase" "primaryStage q = reported v"
      "primaryHit q"
      by auto
    from kb_answers[OF kv(1)] kv(2,3) show ?thesis
      by (simp add: tables_def secondaryStage_def reported_def)
  qed
qed

lemma tables_noMatch: "noMatch q \<Longrightarrow> tables q = initial"
proof -
  assume n: "noMatch q"
  then have "find (\<lambda>(kw, d). js_includes q kw) extendedTopics = None"
    by (auto simp: find_none_iff noMatch_def extendedHit_def)
  moreover from n primaryStage_cases[of q] have "primaryStage q = initial"
    by (fastforce simp: noMatch_def)
  ultimately show ?thesis
    by (simp add: tables_def secondaryStage_def answer_initial extLoop_find)
qed

lemma primaryStage_spec:
  "primaryStage q =
     (case spec_primary q knowledgeBase of
        None \<Rightarrow> initial
      | Some e \<Rightarrow> reported e)"
proof -
  let ?m = "Max (set (0 # map (\<lambda>(k, v). spec_score q k) knowledgeBase))"
  have loop: "kbLoop q knowledgeBase (None, 0) =
      (if ?m > 0 then (map_option snd (find (\<lambda>(k, v). spec_score q k = ?m) knowledgeBase), ?m)
       else (None, 0))"
    unfolding kbLoop_best keyScore_spec Let_def ..
  show ?thesis
    unfolding primaryStage_def spec_primary_def loop Let_def reported_def
    by (auto split: option.splits)
qed

lemma kbLoop_append: "kbLoop q (xs @ ys) st = kbLoop q ys (kbLoop q xs st)"
proof (induction xs arbitrary: st)
  case Nil
  then show ?case by simp
next
  case (Cons e xs)
  obtain k v where e: "e = (k, v)" by (cases e)
  obtain bm bs where st: "st = (bm, bs)" by (cases st)
  show ?case by (simp add: e st Let_def Cons.IH)
qed

lemma kbLoop_keep:
  "\<forall>(k, v)\<in>set xs. keyScore q k \<le> bs \<Longrightarrow> kbLoop q xs (bm, bs) = (bm, bs)"
  using kbLoop_cases[of q xs bm bs] by fastforce

lemma kbLoop_below:
  "\<forall>(k, v)\<in>set xs. keyScore q k < s \<Longrightarrow> bs < s \<Longrightarrow> snd (kbLoop q xs (bm, bs)) < s"
  using kbLoop_cases[of q xs bm bs] by fastforce

lemma keyScore_contained: "js_includes q key \<Longrightarrow> 3 \<le> keyScore q key"
  using js_split_nonempty[of key] by (cases "js_split key") (simp_all add: keyScore_def)

lemma kb_distinct: "distinct (map fst knowledgeBase)"
  by (simp add: knowledgeBase_def)

lemma primaryStage_firstBest:
  assumes mem: "(key, e) \<in> set knowledgeBase"
    and inc: "js_includes q key"
    and fb: "firstBest q key"
  shows "primaryStage q = reported e"
proof -
  let ?P = "\<lambda>(k, v :: body entry). k \<noteq> key"
  let ?pre = "takeWhile ?P knowledgeBase" and ?suf = "dropWhile ?P knowledgeBase"
  let ?s = "keyScore q key"
  from mem have "?suf \<noteq> []" by (auto simp: dropWhile_eq_Nil_conv)
  then obtain x post where suf: "?suf = x # post" by (cases ?suf) auto
  then have "\<not> ?P x" by (metis hd_dropWhile list.sel(1) list.distinct(1))
  then obtain e' where x: "x = (key, e')" by (cases x) auto
  have kb: "knowledgeBase = ?pre @ (key, e') # post"
    using takeWhile_dropWhile_id[of ?P knowledgeBase] by (simp add: suf x)
  then have "(key, e') \<in> set knowledgeBase" by (metis in_set_conv_decomp)
  with mem kb_distinct have e': "e' = e" by (metis eq_key_imp_eq_value)
  from fb have pre: "\<forall>(k, v)\<in>set ?pre. keyScore q k < ?s"
    and all: "\<forall>(k, v)\<in>set knowledgeBase. keyScore q k \<le> ?s"
    by (auto simp: firstBest_def list_all_iff)
  have post: "\<forall>(k, v)\<in>set post. keyScore q k \<le> ?s"
    using all by (subst (asm) kb) auto
  have pos: "3 \<le> ?s" by (rule keyScore_contained[OF inc])
  obtain bm bs where l1: "kbLoop q ?pre (None, 0) = (bm, bs)" by (cases "kbLoop q ?pre (None, 0)")
  from kbLoop_below[OF pre, of 0 None] pos l1 have bs: "bs < ?s" by simp
  have "kbLoop q knowledgeBase (None, 0) = kbLoop q ((key, e') # post) (bm, bs)"
    by (subst kb) (simp only: kbLoop_append l1)
  also have "\<dots> = kbLoop q post (Some e', ?s)" using bs by (simp add: Let_def)
  also have "\<dots> = (Some e', ?s)" by (rule kbLoop_keep[OF post])
  finally show ?thesis using pos by (simp add: primaryStage_def reported_def e')
qed

section \<open>The resolved value\<close>

lemma resolved_eq:
  "resolved (generateAIResponse query h r1 r2) =
     finish (fallbackStage r2
       (identityStage (normalize query)
         (thanksStage (normalize query)
           (greetingStage (normalize query) (tables (normalize query))))))"
  by (simp add: generateAIResponse_def Let_def finish_def tables_def)

lemma fallback_override: "fallbackStage r (override b) = override b"
  by (simp add: fallbackStage_def override_def)

lemma finish_override:
  "answer (finish (override b)) = Some b"
  "confidence (finish (override b)) = 0.98"
  "topic (finish (override b)) = ''General''"
  by (simp_all add: finish_def override_def)

lemma finish_fields:
  "answer (finish st) = answer st"
  "confidence (finish st) = confidence st"
  "topic (finish st) = topic st"
  by (simp_all add: finish_def)

lemma fallback_answers: "\<exists>b. answer (fallbackStage r st) = Some b"
  by (cases "answer st") (simp_all add: fallbackStage_def)

lemma resolved_cases:
  "resolved (generateAIResponse query h r1 r2) =
     (if test identity_re (normalize query) then finish (override IdentityReply)
      else if test thanks_re (normalize query) then finish (override ThanksReply)
      else if test greeting_re (normalize query) then finish (override GreetingReply)
      else finish (fallbackStage r2 (tables (normalize query))))"
  by (simp add: resolved_eq identityStage_def thanksStage_def greetingStage_def
      fallback_override)

lemma applicable_last:
  "applicable q \<noteq> [] \<Longrightarrow>
     snd (last (applicable q)) =
       (if test identity_re q then IdentityReply
        else if test thanks_re q then ThanksReply else GreetingReply)"
  by (simp add: applicable_def overrides_def split: if_splits)

lemma applicable_nonempty:
  "applicable q \<noteq> [] \<longleftrightarrow> test greeting_re q \<or> test thanks_re q \<or> test identity_re q"
  by (simp add: applicable_def overrides_def)

lemma pickSuggestion_in:
  assumes "0 \<le> r" "r < 1"
  shows "pickSuggestion r \<in> set suggestions"
proof -
  have len: "length suggestions = 6" by (simp add: suggestions_def)
  have "0 \<le> r * 6" "r * 6 < 6" using assms by simp_all
  then have fl: "0 \<le> \<lfloor>r * 6\<rfloor>" "\<lfloor>r * 6\<rfloor> < 6" by (simp_all add: floor_less_iff)
  then have i: "nat \<lfloor>r * 6\<rfloor> < length suggestions" unfolding len by linarith
  have "pickSuggestion r = suggestions ! nat \<lfloor>r * 6\<rfloor>"
    using fl by (simp add: pickSuggestion_def len Let_def)
  then show ?thesis using nth_mem[OF i] by (simp only:)
qed

lemma fallback_topic: "topic (fallbackStage rnd st) = topic st"
  by (simp add: fallbackStage_def)

lemma table_answer:
  assumes a: "answer (fallbackStage rp (tables q)) = Some b"
  shows "(\<exists>k. b = KbAnswer k \<or> b = ExtText k) \<and> (primaryHit q \<or> extendedHit q)
   \<or> b = FallbackReply (pickSuggestion rp) \<and> \<not> primaryHit q \<and> \<not> extendedHit q"
proof -
  consider "tables q = initial" "\<not> primaryHit q" "\<not> extendedHit q"
    | c where "answer (tables q) = Some c" "tableText (Some c)"
        "primaryHit q \<or> extendedHit q"
    using tables_cases[of q] by (metis entry.select_convs(1))
  then show ?thesis
  proof cases
    case 1
    with a show ?thesis by (simp add: fallbackStage_def initial_def)
  next
    case 2
    with a have "b = c" by (simp add: fallbackStage_def)
    with 2 show ?thesis by (cases c) auto
  qed
qed

lemma not_override_reply:
  "answer (fallbackStage rp (tables q)) \<noteq> Some IdentityReply"
  "answer (fallbackStage rp (tables q)) \<noteq> Some ThanksReply"
  "answer (fallbackStage rp (tables q)) \<noteq> Some GreetingReply"
  using table_answer[of rp q] by auto

section \<open>The greeting pattern\<close>

text \<open>The positions a sequence reaches are those its tail reaches from the positions its
  head reaches; from here on the sequence is unfolded by these two equations.\<close>

lemma lit_match_set:
  "set (lit_match l (prev, s)) =
     (if prefix l s then {(if l = [] then prev else Some (last l), drop (length l) s)} else {})"
proof (induction l arbitrary: prev s)
  case Nil
  then show ?case by simp
next
  case (Cons c l)
  show ?case
  proof (cases s)
    case Nil
    then show ?thesis by simp
  next
    case (Cons d ds)
    then show ?thesis using Cons.IH[of "Some d" ds] by auto
  qed
qed

lemma seq_fold_set:
  "set (fold (\<lambda>r ps. concat (map (rmatch r) ps)) rs ps) =
     (\<Union>p\<in>set ps. set (fold (\<lambda>r ps. concat (map (rmatch r) ps)) rs [p]))"
proof (induction rs arbitrary: ps)
  case Nil
  then show ?case by simp
next
  case (Cons r rs)
  show ?case
    by (simp add: Cons.IH[of "concat (map (rmatch r) ps)"] Cons.IH[of "rmatch r p" for p])
qed

lemma rmatch_Seq_Nil: "set (rmatch (Seq []) p) = {p}"
  by simp

lemma rmatch_Seq_Cons:
  "set (rmatch (Seq (r # rs)) p) = (\<Union>p'\<in>set (rmatch r p). set (rmatch (Seq rs) p'))"
  using seq_fold_set[of rs "rmatch r p"] by simp

declare rmatch.simps(4) [simp del]

lemma ws_lit:
  "l \<noteq> [] \<Longrightarrow> \<not> isWhiteSpace (hd l) \<Longrightarrow>
     (\<Union>p\<in>set (ws_star prev s). set (lit_match l p)) =
       set (lit_match l (prev, dropWhile isWhiteSpace s))"
proof (induction s arbitrary: prev)
  case Nil
  then show ?case by simp
next
  case (Cons d ds)
  show ?case
  proof (cases "isWhiteSpace d")
    case True
    with Cons.prems have "\<not> prefix l (d # ds)"
      by (cases l) auto
    with True Cons.IH[OF Cons.prems, of "Some d"] Cons.prems show ?thesis
      by (simp add: lit_match_set)
  next
    case False
    then show ?thesis by simp
  qed
qed

lemma greeting_re_group: "greeting_re = Seq [Bol, greeting_group, WordB]"
  by (simp add: greeting_re_def)

lemma daytime_head: "daytime t \<Longrightarrow> t \<noteq> [] \<and> \<not> isWhiteSpace (hd t) \<and> isWordChar (last t)"
  by (auto simp: daytime_def isWhiteSpace_def isWordChar_def inRange_def)

lemma search_Bol: "search (Seq (Bol # rs)) (Some c) s = False"
proof (induction s arbitrary: c)
  case Nil
  have "set (rmatch (Seq (Bol # rs)) (Some c, [])) = {}"
    unfolding rmatch_Seq_Cons by simp
  then show ?case by simp
next
  case (Cons d ds)
  have "set (rmatch (Seq (Bol # rs)) (Some c, d # ds)) = {}"
    unfolding rmatch_Seq_Cons by simp
  with Cons.IH show ?case by simp
qed

lemma test_Bol: "test (Seq (Bol # rs)) s \<longleftrightarrow> set (rmatch (Seq rs) (None, s)) \<noteq> {}"
proof -
  have "test (Seq (Bol # rs)) s \<longleftrightarrow> set (rmatch (Seq (Bol # rs)) (None, s)) \<noteq> {}"
    by (cases s) (simp_all add: test_def search_Bol del: rmatch.simps)
  then show ?thesis unfolding rmatch_Seq_Cons by simp
qed

lemma seq_lit:
  "set (rmatch (Seq (Lit l # rs)) (prev, s)) =
     (if prefix l s
      then set (rmatch (Seq rs) (if l = [] then prev else Some (last l), drop (length l) s))
      else {})"
  by (simp add: rmatch_Seq_Cons lit_match_set)

lemma seq_ws_lits:
  assumes "\<forall>t\<in>set ts. t \<noteq> [] \<and> \<not> isWhiteSpace (hd t)"
  shows "set (rmatch (Seq [WsStar, Alt (map Lit ts)]) (prev, s)) =
     (\<Union>t\<in>set ts. set (lit_match t (prev, dropWhile isWhiteSpace s)))"
proof -
  have "set (rmatch (Seq [WsStar, Alt (map Lit ts)]) (prev, s)) =
      (\<Union>p\<in>set (ws_star prev s). \<Union>t\<in>set ts. set (lit_match t p))"
    by (simp add: rmatch_Seq_Cons rmatch_Seq_Nil)
  also have "\<dots> = (\<Union>t\<in>set ts. \<Union>p\<in>set (ws_star prev s). set (lit_match t p))"
    by blast
  also have "\<dots> = (\<Union>t\<in>set ts. set (lit_match t (prev, dropWhile isWhiteSpace s)))"
    using assms by (simp add: ws_lit)
  finally show ?thesis .
qed

lemma good_branch:
  "p \<in> set (rmatch (Seq [Lit ''good'', WsStar,
                        Alt [Lit ''morning'', Lit ''afternoon'', Lit ''evening'']]) (prev, s))
   \<longleftrightarrow> prefix ''good'' s
       \<and> (\<exists>t. daytime t \<and> prefix t (dropWhile isWhiteSpace (drop 4 s))
              \<and> p = (Some (last t), drop (length t) (dropWhile isWhiteSpace (drop 4 s))))"
proof -
  let ?ts = "[''morning'', ''afternoon'', ''evening'']"
  have h: "\<forall>t\<in>set ?ts. t \<noteq> [] \<and> \<not> isWhiteSpace (hd t)"
    using daytime_head by (simp add: daytime_def)
  have "set (rmatch (Seq [Lit ''good'', WsStar, Alt (map Lit ?ts)]) (prev, s)) =
      (if prefix ''good'' s
       then (\<Union>t\<in>set ?ts. set (lit_match t (Some CHR ''d'', dropWhile isWhiteSpace (drop 4 s))))
       else {})"
    unfolding seq_lit seq_ws_lits[OF h] by (simp add: eval_nat_numeral)
  then show ?thesis
    by (simp add: lit_match_set daytime_def del: lit_match.simps) blast
qed

lemma dropWhile_after_takeWhile:
  "t \<noteq> [] \<Longrightarrow> \<not> P (hd t) \<Longrightarrow> dropWhile P (takeWhile P x @ t @ r) = t @ r"
proof -
  assume t: "t \<noteq> []" "\<not> P (hd t)"
  have "dropWhile P (takeWhile P x @ t @ r) = dropWhile P (t @ r)"
    by (rule dropWhile_append2) (auto dest: set_takeWhileD)
  with t show ?thesis by (cases t) simp_all
qed

lemma takeWhile_before_head:
  "t \<noteq> [] \<Longrightarrow> \<not> P (hd t) \<Longrightarrow> takeWhile P (takeWhile P x @ t @ r) = takeWhile P x"
proof -
  assume t: "t \<noteq> []" "\<not> P (hd t)"
  have "takeWhile P (takeWhile P x @ t @ r) = takeWhile P x @ takeWhile P (t @ r)"
    by (rule takeWhile_append2) (auto dest: set_takeWhileD)
  with t show ?thesis by (cases t) simp_all
qed

lemma group_cases:
  "p \<in> set (rmatch greeting_group (prev, s)) \<longleftrightarrow>
     (\<exists>l\<in>set simpleTokens. prefix l s \<and> p = (Some (last l), drop (length l) s))
   \<or> (prefix ''good'' s
       \<and> (\<exists>t. daytime t \<and> prefix t (dropWhile isWhiteSpace (drop 4 s))
              \<and> p = (Some (last t), drop (length t) (dropWhile isWhiteSpace (drop 4 s)))))"
proof -
  have "p \<in> set (rmatch greeting_group (prev, s)) \<longleftrightarrow>
      (\<exists>l\<in>set simpleTokens. p \<in> set (lit_match l (prev, s)))
      \<or> p \<in> set (rmatch (Seq [Lit ''good'', WsStar,
                        Alt [Lit ''morning'', Lit ''afternoon'', Lit ''evening'']]) (prev, s))"
    unfolding greeting_group_def simpleTokens_def
    by (simp del: lit_match.simps rmatch_Seq_Cons) blast
  also have "(\<exists>l\<in>set simpleTokens. p \<in> set (lit_match l (prev, s))) \<longleftrightarrow>
      (\<exists>l\<in>set simpleTokens. prefix l s \<and> p = (Some (last l), drop (length l) s))"
    by (simp add: lit_match_set simpleTokens_def del: lit_match.simps)
  finally show ?thesis unfolding good_branch .
qed

lemma greetingToken_cases:
  "greetingToken tok \<longleftrightarrow>
     tok \<in> set simpleTokens
   \<or> (\<exists>w t. tok = ''good'' @ takeWhile isWhiteSpace w @ t \<and> daytime t)"
proof
  assume "greetingToken tok"
  then consider "tok \<in> set simpleTokens"
    | "prefix ''good'' tok" "daytime (dropWhile isWhiteSpace (drop 4 tok))"
    by (auto simp: greetingToken_def simpleTokens_def daytime_def)
  then show "tok \<in> set simpleTokens
   \<or> (\<exists>w t. tok = ''good'' @ takeWhile isWhiteSpace w @ t \<and> daytime t)"
  proof cases
    case 1
    then show ?thesis by simp
  next
    case 2
    from 2(1) have "tok = ''good'' @ drop 4 tok" by (auto simp: prefix_def)
    then have "tok = ''good'' @ takeWhile isWhiteSpace (drop 4 tok)
                       @ dropWhile isWhiteSpace (drop 4 tok)"
      by simp
    with 2(2) show ?thesis by blast
  qed
next
  assume "tok \<in> set simpleTokens
   \<or> (\<exists>w t. tok = ''good'' @ takeWhile isWhiteSpace w @ t \<and> daytime t)"
  then show "greetingToken tok"
  proof
    assume "tok \<in> set simpleTokens"
    then show ?thesis by (simp add: greetingToken_def simpleTokens_def)
  next
    assume "\<exists>w t. tok = ''good'' @ takeWhile isWhiteSpace w @ t \<and> daytime t"
    then obtain w t where tok: "tok = ''good'' @ takeWhile isWhiteSpace w @ t" and d: "daytime t"
      by blast
    from daytime_head[OF d] have "dropWhile isWhiteSpace (takeWhile isWhiteSpace w @ t @ []) = t @ []"
      by (intro dropWhile_after_takeWhile) simp_all
    moreover have "drop 4 tok = takeWhile isWhiteSpace w @ t" by (simp add: tok)
    ultimately have "dropWhile isWhiteSpace (drop 4 tok) = t" by simp
    moreover have "prefix ''good'' tok" by (simp add: tok)
    ultimately show ?thesis
      using d unfolding greetingToken_def daytime_def by blast
  qed
qed

lemma group_set:
  "p \<in> set (rmatch greeting_group (prev, s)) \<longleftrightarrow>
     (\<exists>tok rest. s = tok @ rest \<and> greetingToken tok \<and> p = (Some (last tok), rest))"
  (is "?L \<longleftrightarrow> ?R")
proof
  assume ?L
  then consider l where "l \<in> set simpleTokens" "prefix l s"
      "p = (Some (last l), drop (length l) s)"
    | t where "prefix ''good'' s" "daytime t" "prefix t (dropWhile isWhiteSpace (drop 4 s))"
      "p = (Some (last t), drop (length t) (dropWhile isWhiteSpace (drop 4 s)))"
    unfolding group_cases by blast
  then show ?R
  proof cases
    case 1
    from 1(2) have "s = l @ drop (length l) s" by (auto simp: prefix_def)
    with 1 show ?thesis unfolding greetingToken_cases by blast
  next
    case 2
    let ?w = "drop 4 s"
    let ?rest = "drop (length t) (dropWhile isWhiteSpace ?w)"
    let ?tok = "''good'' @ takeWhile isWhiteSpace ?w @ t"
    from 2(3) have d: "dropWhile isWhiteSpace ?w = t @ ?rest" by (auto simp: prefix_def)
    from 2(1) have "s = ''good'' @ ?w" by (auto simp: prefix_def)
    also have "?w = takeWhile isWhiteSpace ?w @ dropWhile isWhiteSpace ?w" by simp
    finally have s: "s = ?tok @ ?rest" using d by simp
    have g: "greetingToken ?tok" unfolding greetingToken_cases using 2(2) by blast
    from daytime_head[OF 2(2)] have "last ?tok = last t" by simp
    with s g 2(4) show ?thesis by metis
  qed
next
  assume ?R
  then obtain tok rest where s: "s = tok @ rest" and g: "greetingToken tok"
    and p: "p = (Some (last tok), rest)" by blast
  from g consider "tok \<in> set simpleTokens"
    | w t where "tok = ''good'' @ takeWhile isWhiteSpace w @ t" "daytime t"
    unfolding greetingToken_cases by blast
  then show ?L
  proof cases
    case 1
    have "prefix tok s" "drop (length tok) s = rest" by (simp_all add: s)
    with 1 p show ?thesis unfolding group_cases by blast
  next
    case 2
    from daytime_head[OF 2(2)]
    have dw: "dropWhile isWhiteSpace (takeWhile isWhiteSpace w @ t @ rest) = t @ rest"
      by (intro dropWhile_after_takeWhile) simp_all
    have "drop 4 s = takeWhile isWhiteSpace w @ t @ rest" by (simp add: s 2(1))
    with dw have d: "dropWhile isWhiteSpace (drop 4 s) = t @ rest" by simp
    have pg: "prefix ''good'' s" by (simp add: s 2(1))
    from daytime_head[OF 2(2)] have "last tok = last t" by (simp add: 2(1))
    with p have "p = (Some (last t), drop (length t) (dropWhile isWhiteSpace (drop 4 s)))"
      by (simp add: d)
    moreover have "prefix t (dropWhile isWhiteSpace (drop 4 s))" by (simp add: d)
    ultimately show ?thesis unfolding group_cases using pg 2(2) by blast
  qed
qed

lemma greetingToken_last: "greetingToken tok \<Longrightarrow> tok \<noteq> [] \<and> isWordChar (last tok)"
proof -
  assume "greetingToken tok"
  then consider "tok \<in> set simpleTokens"
    | w t where "tok = ''good'' @ takeWhile isWhiteSpace w @ t" "daytime t"
    unfolding greetingToken_cases by blast
  then show ?thesis
  proof cases
    case 1
    then show ?thesis by (auto simp: simpleTokens_def isWordChar_def inRange_def)
  next
    case 2
    from daytime_head[OF 2(2)] show ?thesis by (simp add: 2(1))
  qed
qed

lemma greeting_test_iff:
  "test greeting_re s \<longleftrightarrow>
     (\<exists>tok rest. s = tok @ rest \<and> greetingToken tok
        \<and> (rest = [] \<or> \<not> isWordChar (hd rest)))"
proof -
  have wa: "\<And>x rest. wordAfter (x, rest) \<longleftrightarrow> \<not> (rest = [] \<or> \<not> isWordChar (hd rest))"
    by (simp add: wordAfter_def split: list.splits)
  have "test greeting_re s \<longleftrightarrow>
      (\<exists>p\<in>set (rmatch greeting_group (None, s)). wordBefore p \<noteq> wordAfter p)"
    unfolding greeting_re_group test_Bol rmatch_Seq_Cons rmatch_Seq_Nil by auto
  also have "\<dots> \<longleftrightarrow> (\<exists>tok rest. s = tok @ rest \<and> greetingToken tok
        \<and> wordBefore (Some (last tok), rest) \<noteq> wordAfter (Some (last tok), rest))"
    unfolding Bex_def group_set by blast
  also have "\<dots> \<longleftrightarrow> (\<exists>tok rest. s = tok @ rest \<and> greetingToken tok
        \<and> (rest = [] \<or> \<not> isWordChar (hd rest)))"
  proof -
    have "\<And>tok rest. greetingToken tok \<Longrightarrow>
        (wordBefore (Some (last tok), rest) \<noteq> wordAfter (Some (last tok), rest))
        = (rest = [] \<or> \<not> isWordChar (hd rest))"
      using greetingToken_last by (simp add: wa wordBefore_def)
    then show ?thesis by blast
  qed
  finally show ?thesis .
qed

lemma token_unique:
  assumes "greetingToken a" "greetingToken b" "a @ x = b @ y"
  shows "a = b"
proof -
  from assms(1) consider (sa) "a \<in> set simpleTokens"
    | (ga) wa ta where "a = ''good'' @ takeWhile isWhiteSpace wa @ ta" "daytime ta"
    unfolding greetingToken_cases by blast
  then show ?thesis
  proof cases
    case sa
    from assms(2) consider (sb) "b \<in> set simpleTokens"
      | (gb) wb tb where "b = ''good'' @ takeWhile isWhiteSpace wb @ tb" "daytime tb"
      unfolding greetingToken_cases by blast
    then show ?thesis
    proof cases
      case sb
      with sa assms(3) show ?thesis by (auto simp: simpleTokens_def)
    next
      case gb
      with sa assms(3) show ?thesis by (auto simp: simpleTokens_def)
    qed
  next
    case ga
    from assms(2) consider (sb) "b \<in> set simpleTokens"
      | (gb) wb tb where "b = ''good'' @ takeWhile isWhiteSpace wb @ tb" "daytime tb"
      unfolding greetingToken_cases by blast
    then show ?thesis
    proof cases
      case sb
      with ga assms(3) show ?thesis by (auto simp: simpleTokens_def)
    next
      case gb
      let ?ua = "takeWhile isWhiteSpace wa" and ?ub = "takeWhile isWhiteSpace wb"
      from assms(3) have e: "?ua @ ta @ x = ?ub @ tb @ y" by (simp add: ga(1) gb(1))
      note ha = daytime_head[OF ga(2)] and hb = daytime_head[OF gb(2)]
      have "dropWhile isWhiteSpace (?ua @ ta @ x) = ta @ x"
        using ha by (intro dropWhile_after_takeWhile) simp_all
      moreover have "dropWhile isWhiteSpace (?ub @ tb @ y) = tb @ y"
        using hb by (intro dropWhile_after_takeWhile) simp_all
      ultimately have "ta @ x = tb @ y" using e by simp
      with ga(2) gb(2) have t: "ta = tb" by (auto simp: daytime_def)
      have "takeWhile isWhiteSpace (?ua @ ta @ x) = ?ua"
        using ha by (intro takeWhile_before_head) simp_all
      moreover have "takeWhile isWhiteSpace (?ub @ tb @ y) = ?ub"
        using hb by (intro takeWhile_before_head) simp_all
      ultimately have "?ua = ?ub" using e by simp
      with t show ?thesis by (simp add: ga(1) gb(1))
    qed
  qed
qed

lemma greeting_no_boundary:
  assumes "s = tok @ c # rest" "greetingToken tok" "isWordChar c"
  shows "\<not> test greeting_re s"
proof
  assume "test greeting_re s"
  then obtain tok' rest' where s: "s = tok' @ rest'" and g: "greetingToken tok'"
    and b: "rest' = [] \<or> \<not> isWordChar (hd rest')"
    unfolding greeting_test_iff by blast
  from assms(1) s have e: "tok @ c # rest = tok' @ rest'" by simp
  from token_unique[OF assms(2) g e] e have "rest' = c # rest" by simp
  with b assms(3) show False by simp
qed

section \<open>The claims\<close>

text \<open>
  C1. For every query, the primary matcher works on the normalized query and scores each
  entry as the specification says: three times the number of words of a key that the query
  contains as a contiguous substring, otherwise one point for each word of the key that
  occurs in the query, the words of the 23 keys being those listed. It reports the first
  entry in table order that reaches the highest score, and reports it (answer, confidence
  and topic) only if that score is at least 1; otherwise the locals keep their initial
  values.
\<close>

theorem primary_matcher_best_first:
  "primaryStage (normalize query) =
     (case spec_primary (normalize query) knowledgeBase of
        None \<Rightarrow> initial
      | Some e \<Rightarrow> \<lparr>answer = Some (answer e), confidence = confidence e, topic = topic e\<rparr>)
   \<and> keyScore (normalize query) key = spec_score (normalize query) key
   \<and> map (\<lambda>(k, v). spec_words k) knowledgeBase =
     [[''binary'', ''search'', ''tree''], [''quick'', ''sort''], [''merge'', ''sort''],
      [''linked'', ''list''], [''hash'', ''table''], [''stack''], [''queue''], [''graph''],
      [''heap''], [''first'', ''law'', ''of'', ''thermodynamics''],
      [''second'', ''law'', ''of'', ''thermodynamics''], [''carnot'', ''cycle''], [''entropy''],
      [''fourier'', ''transform''], [''nyquist'', ''theorem''], [''convolution''],
      [''recursion''], [''big'', ''o'', ''notation''], [''dynamic'', ''programming''],
      [''what'', ''is''], [''how'', ''does''], [''explain''], [''help'']]"
proof -
  have w: "map (\<lambda>(k, v). spec_words k) knowledgeBase =
     [[''binary'', ''search'', ''tree''], [''quick'', ''sort''], [''merge'', ''sort''],
      [''linked'', ''list''], [''hash'', ''table''], [''stack''], [''queue''], [''graph''],
      [''heap''], [''first'', ''law'', ''of'', ''thermodynamics''],
      [''second'', ''law'', ''of'', ''thermodynamics''], [''carnot'', ''cycle''], [''entropy''],
      [''fourier'', ''transform''], [''nyquist'', ''theorem''], [''convolution''],
      [''recursion''], [''big'', ''o'', ''notation''], [''dynamic'', ''programming''],
      [''what'', ''is''], [''how'', ''does''], [''explain''], [''help'']]"
    by code_simp
  from primaryStage_spec[of "normalize query"]
  have "primaryStage (normalize query) =
     (case spec_primary (normalize query) knowledgeBase of
        None \<Rightarrow> initial
      | Some e \<Rightarrow> \<lparr>answer = Some (answer e), confidence = confidence e, topic = topic e\<rparr>)"
    unfolding reported_def .
  with w keyScore_spec[of "normalize query" key] show ?thesis by (intro conjI)
qed

theorem primary_matcher_best_first_witness:
  "primaryStage (normalize ''What is a stack?'') =
     \<lparr>answer = Some (KbAnswer ''what is''), confidence = 0.7, topic = ''General''\<rparr>
   \<and> keyScore (normalize ''What is a stack?'') ''what is'' = 6
   \<and> spec_score (normalize ''What is a stack?'') ''what is'' = 6
   \<and> spec_score (normalize ''What is a stack?'') ''stack'' = 3
   \<and> primaryStage (normalize ''sort then quick it'') =
     \<lparr>answer = Some (KbAnswer ''quick sort''), confidence = 0.94, topic = ''Algorithms''\<rparr>
   \<and> spec_score (normalize ''sort then quick it'') ''quick sort'' = 2
   \<and> spec_score (normalize ''quick sort algorithm is quick'') ''quick sort'' = 6
   \<and> spec_primary (normalize ''purple elephant quantum'') knowledgeBase = None
   \<and> primaryStage (normalize ''purple elephant quantum'') = initial"
  using primary_matcher_best_first [of "''What is a stack?''" "''what is''"]
    primary_matcher_best_first [of "''sort then quick it''" "''quick sort''"]
    primary_matcher_best_first [of "''purple elephant quantum''" "''stack''"]
  by code_simp

text \<open>
  C2. The overrides run after the two table lookups, in the order greeting, thanks,
  identity. Whenever at least one pattern matches the normalized query, the resolved answer
  is the reply of the last matching override in that order, whatever the tables found, with
  confidence 0.98 and topic General. For the query "thanks so much!" the answer is the thanks
  reply, with confidence 0.98 and topic General.
\<close>

theorem overrides_last_wins:
  fixes query :: string and h :: 'h and r1 r2 :: real
  defines "q \<equiv> normalize query"
    and "r \<equiv> resolved (generateAIResponse query h r1 r2)"
    and "t \<equiv> resolved (generateAIResponse ''thanks so much!'' h r1 r2)"
  shows "(applicable q \<noteq> [] \<longrightarrow>
            answer r = Some (snd (last (applicable q)))
          \<and> confidence r = 0.98 \<and> topic r = ''General'')
       \<and> map snd overrides = [GreetingReply, ThanksReply, IdentityReply]
       \<and> answer t = Some ThanksReply \<and> confidence t = 0.98 \<and> topic t = ''General''"
proof -
  have gen: "applicable q \<noteq> [] \<longrightarrow>
            answer r = Some (snd (last (applicable q)))
          \<and> confidence r = 0.98 \<and> topic r = ''General''"
  proof
    assume ne: "applicable q \<noteq> []"
    then have "test greeting_re q \<or> test thanks_re q \<or> test identity_re q"
      by (simp add: applicable_nonempty)
    then show "answer r = Some (snd (last (applicable q)))
          \<and> confidence r = 0.98 \<and> topic r = ''General''"
      unfolding applicable_last[OF ne] r_def resolved_cases q_def[symmetric]
      by (auto simp: finish_override)
  qed
  have th: "test thanks_re (normalize ''thanks so much!'')" by code_simp
  have id: "\<not> test identity_re (normalize ''thanks so much!'')" by code_simp
  have ex: "answer t = Some ThanksReply \<and> confidence t = 0.98 \<and> topic t = ''General''"
    unfolding t_def resolved_cases using th id by (simp add: finish_override)
  show ?thesis using gen ex by (simp add: overrides_def)
qed

theorem overrides_last_wins_witness:
  "applicable (normalize ''Hey, thanks - who are you?'') \<noteq> []
   \<and> answer (resolved (generateAIResponse ''Hey, thanks - who are you?'' () 0 0))
       = Some IdentityReply
   \<and> confidence (resolved (generateAIResponse ''Hey, thanks - who are you?'' () 0 0)) = 0.98
   \<and> topic (resolved (generateAIResponse ''Hey, thanks - who are you?'' () 0 0)) = ''General''"
proof -
  have a: "applicable (normalize ''Hey, thanks - who are you?'') =
      [(greeting_re, GreetingReply), (thanks_re, ThanksReply), (identity_re, IdentityReply)]"
    by code_simp
  from overrides_last_wins[of "''Hey, thanks - who are you?''" "()" 0 0] a
  show ?thesis by simp
qed

text \<open>
  C3. The extended table is consulted only when no primary entry scores at least 1: when
  one does, the extended branch leaves the locals as the primary branch set them. When none
  does, the branch reports the first entry, in the order of the table, whose keyword is a
  substring of the normalized query, and nothing if there is none.
\<close>

theorem secondary_first_hit:
  fixes query :: string
  defines "q \<equiv> normalize query"
  shows "(primaryHit q \<longrightarrow>
            secondaryStage q (primaryStage q) = primaryStage q)
       \<and> (\<not> primaryHit q \<longrightarrow>
            secondaryStage q (primaryStage q) =
              (case find (\<lambda>(kw, d). sublist kw q) extendedTopics of
                 None \<Rightarrow> initial
               | Some (kw, d) \<Rightarrow>
                   \<lparr>answer = Some (text_e d), confidence = conf d, topic = top_e d\<rparr>))"
proof (intro conjI impI)
  assume "primaryHit q"
  with primaryStage_cases[of q] obtain v where "primaryStage q = reported v"
    by fastforce
  then show "secondaryStage q (primaryStage q) = primaryStage q"
    by (simp add: secondaryStage_def answer_reported)
next
  assume "\<not> primaryHit q"
  with primaryStage_cases[of q] have "primaryStage q = initial"
    by fastforce
  then show "secondaryStage q (primaryStage q) =
     (case find (\<lambda>(kw, d). sublist kw q) extendedTopics of
        None \<Rightarrow> initial
      | Some (kw, d) \<Rightarrow> \<lparr>answer = Some (text_e d), confidence = conf d, topic = top_e d\<rparr>)"
    by (simp add: secondaryStage_def answer_initial extLoop_find js_includes_sublist)
qed

theorem secondary_first_hit_witness:
  "primaryHit (normalize ''Stack'')
   \<and> secondaryStage (normalize ''Stack'') (primaryStage (normalize ''Stack''))
       = primaryStage (normalize ''Stack'')
   \<and> \<not> primaryHit (normalize ''SQL array'')
   \<and> secondaryStage (normalize ''SQL array'') (primaryStage (normalize ''SQL array''))
       = \<lparr>answer = Some (ExtText ''array''), confidence = 0.9, topic = ''Data Structures''\<rparr>"
proof -
  have h1: "primaryHit (normalize ''Stack'')"
    by code_simp
  have h2: "\<not> primaryHit (normalize ''SQL array'')"
    by code_simp
  have f: "find (\<lambda>(kw, d). sublist kw (normalize ''SQL array'')) extendedTopics
      = Some (''array'', \<lparr>text_e = ExtText ''array'', conf = 0.9, top_e = ''Data Structures''\<rparr>)"
    by code_simp
  from secondary_first_hit[of "''Stack''"] secondary_first_hit[of "''SQL array''"] h1 h2 f
  show ?thesis by simp
qed

text \<open>
  C5. For every query the promise is resolved with an answer that is not \<^verbatim>\<open>null\<close>; no
  path of the function throws, so the model has no error value. When nothing matches the
  normalized query, the confidence is 0.65 and the answer is the fallback template with the
  picked suggestion, which is one of the six suggestions whenever the random value lies in
  [0, 1). The empty query is such a query.
\<close>

theorem always_answers:
  fixes query :: string and h :: 'h and r1 r2 :: real
  defines "q \<equiv> normalize query"
    and "r \<equiv> resolved (generateAIResponse query h r1 r2)"
    and "e \<equiv> resolved (generateAIResponse [] h r1 r2)"
  shows "(\<exists>b. answer r = Some b)
       \<and> (noMatch q \<longrightarrow>
            confidence r = 0.65 \<and> answer r = Some (FallbackReply (pickSuggestion r2)))
       \<and> noMatch (normalize [])
       \<and> confidence e = 0.65 \<and> answer e = Some (FallbackReply (pickSuggestion r2))
       \<and> (0 \<le> r2 \<and> r2 < 1 \<longrightarrow> pickSuggestion r2 \<in> set suggestions)"
proof -
  have fb: "\<And>x. noMatch (normalize x) \<Longrightarrow>
      resolved (generateAIResponse x h r1 r2) =
        \<lparr>answer = Some (FallbackReply (pickSuggestion r2)), confidence = 0.65,
          topic = ''General'', isLocal = True\<rparr>"
    by (simp add: resolved_cases tables_noMatch fallbackStage_def finish_def initial_def)
       (simp add: noMatch_def)
  have total: "\<exists>b. answer r = Some b"
    by (simp add: r_def resolved_cases finish_fields fallback_answers override_def)
  have empty: "noMatch (normalize [])" by code_simp
  show ?thesis
    using total fb[of query] fb[OF empty] empty pickSuggestion_in[of r2]
    by (simp add: r_def e_def q_def)
qed

theorem always_answers_witness:
  "noMatch (normalize ''purple elephant quantum'')
   \<and> confidence (resolved (generateAIResponse ''purple elephant quantum'' () 0 (1/2))) = 0.65
   \<and> answer (resolved (generateAIResponse ''purple elephant quantum'' () 0 (1/2)))
       = Some (FallbackReply ''Fourier Transform'')
   \<and> (0::real) \<le> 1/2 \<and> (1/2::real) < 1 \<and> pickSuggestion (1/2) \<in> set suggestions"
proof -
  have n: "noMatch (normalize ''purple elephant quantum'')" by code_simp
  have p: "pickSuggestion (1/2) = ''Fourier Transform''" by code_simp
  from always_answers[of "''purple elephant quantum''" "()" 0 "1/2"] n p
  show ?thesis by simp
qed

text \<open>
  C4, as the specification states it, fails: the query "What is a stack?" contains the key
  \<^verbatim>\<open>stack\<close> and matches no override pattern, yet the resolved topic and confidence are
  those of the entry \<^verbatim>\<open>what is\<close> (General, 0.7), which scores 6 against 3, and not those
  of the entry \<^verbatim>\<open>stack\<close> (Data Structures, 0.95).
\<close>

theorem contained_key_counterexample:
  "(''stack'', \<lparr>answer = KbAnswer ''stack'', confidence = 0.95, topic = ''Data Structures''\<rparr>)
     \<in> set knowledgeBase
   \<and> sublist ''stack'' (normalize ''What is a stack?'')
   \<and> applicable (normalize ''What is a stack?'') = []
   \<and> topic (resolved (generateAIResponse ''What is a stack?'' () 0 0)) = ''General''
   \<and> confidence (resolved (generateAIResponse ''What is a stack?'' () 0 0)) = 0.7"
  by code_simp

text \<open>
  C4, amended. For every query whose normalized form contains a primary key as a contiguous
  substring and matches no override pattern, the resolved topic and confidence are those of
  the first entry, in table order, that reaches the highest score. They are those of the
  contained key's own entry whenever no entry scores more than that key and no entry listed
  before it scores as much.
\<close>

theorem contained_key_when_best:
  fixes query :: string and h :: 'h and rd rp :: real
  defines "q \<equiv> normalize query"
    and "r \<equiv> resolved (generateAIResponse query h rd rp)"
  assumes mem: "(key, e) \<in> set knowledgeBase"
    and inc: "sublist key q"
    and no: "applicable q = []"
  shows "(\<exists>b. spec_primary q knowledgeBase = Some b
            \<and> topic r = topic b \<and> confidence r = confidence b)
       \<and> (firstBest q key \<longrightarrow> topic r = topic e \<and> confidence r = confidence e)"
proof -
  from no have nt: "\<not> test identity_re q" "\<not> test thanks_re q" "\<not> test greeting_re q"
    using applicable_nonempty[of q] by simp_all
  from inc have inc': "js_includes q key" by (simp add: js_includes_sublist)
  from keyScore_contained[OF inc'] mem have hit: "primaryHit q"
    by (auto simp: primaryHit_def intro!: bexI[of _ "(key, e)"])
  have r: "\<And>b. primaryStage q = reported b \<Longrightarrow>
      topic r = topic b \<and> confidence r = confidence b"
    unfolding r_def resolved_cases q_def[symmetric]
    by (simp add: nt tables_def secondaryStage_def fallbackStage_def finish_fields reported_def)
  from hit primaryStage_cases[of q] have "primaryStage q \<noteq> initial"
    by (auto simp: reported_def initial_def)
  with primaryStage_spec[of q] obtain b where b: "spec_primary q knowledgeBase = Some b"
    "primaryStage q = reported b"
    by (cases "spec_primary q knowledgeBase") auto
  from r[OF b(2)] b(1) r[OF primaryStage_firstBest[OF mem inc']]
  show ?thesis by blast
qed

theorem contained_key_when_best_witness:
  "(''hash table'', \<lparr>answer = KbAnswer ''hash table'', confidence = 0.94, topic = ''Data Structures''\<rparr>)
     \<in> set knowledgeBase
   \<and> sublist ''hash table'' (normalize ''What is a Hash Table?'')
   \<and> applicable (normalize ''What is a Hash Table?'') = []
   \<and> firstBest (normalize ''What is a Hash Table?'') ''hash table''
   \<and> topic (resolved (generateAIResponse ''What is a Hash Table?'' () 0 0)) = ''Data Structures''
   \<and> confidence (resolved (generateAIResponse ''What is a Hash Table?'' () 0 0)) = 0.94"
proof -
  let ?e = "\<lparr>answer = KbAnswer ''hash table'', confidence = 0.94, topic = ''Data Structures''\<rparr>"
  have a: "(''hash table'', ?e) \<in> set knowledgeBase" by (simp add: knowledgeBase_def)
  have b: "sublist ''hash table'' (normalize ''What is a Hash Table?'')" by code_simp
  have c: "applicable (normalize ''What is a Hash Table?'') = []" by code_simp
  have d: "firstBest (normalize ''What is a Hash Table?'') ''hash table''" by code_simp
  note w = contained_key_when_best[OF a b c, where h = "()" and rd = 0 and rp = 0]
  from w d have "topic (resolved (generateAIResponse ''What is a Hash Table?'' () 0 0)) = ''Data Structures''"
    "confidence (resolved (generateAIResponse ''What is a Hash Table?'' () 0 0)) = 0.94"
    by simp_all
  with a b c d show ?thesis by (intro conjI)
qed

text \<open>
  C6, as the specification states it, fails: the override patterns are not tried on the
  query as submitted. The greeting pattern does not match the submitted string "  Hello",
  with or without regard to case, because of the leading blanks; the greeting reply is given
  all the same.
\<close>

theorem greeting_on_raw_counterexample:
  "\<not> test greeting_re ''  Hello''
   \<and> \<not> test_ci greeting_re ''  Hello''
   \<and> answer (resolved (generateAIResponse ''  Hello'' () 0 0)) = Some GreetingReply"
  by code_simp

text \<open>
  C6, amended. Each override pattern (greeting, thanks, identity) is tried on the normalized
  query, lowercased and then trimmed, the same string the two table lookups use: the identity
  reply is resolved exactly when the identity pattern matches it, the thanks reply exactly
  when the thanks pattern matches it and the identity pattern does not, the greeting reply
  exactly when the greeting pattern matches it and the other two do not. Two queries with
  the same normalized form, such as two that differ in case or in blanks at the ends, are
  resolved alike.
\<close>

theorem overrides_on_normalized:
  fixes query :: string and h :: 'h and rd rp :: real
  defines "q \<equiv> trim (toLowerCase query)"
    and "r \<equiv> resolved (generateAIResponse query h rd rp)"
  shows "(answer r = Some IdentityReply \<longleftrightarrow> test identity_re q)
       \<and> (answer r = Some ThanksReply \<longleftrightarrow> test thanks_re q \<and> \<not> test identity_re q)
       \<and> (answer r = Some GreetingReply \<longleftrightarrow>
            test greeting_re q \<and> \<not> test thanks_re q \<and> \<not> test identity_re q)
       \<and> (\<forall>query'. trim (toLowerCase query') = q \<longrightarrow>
            generateAIResponse query' h rd rp = generateAIResponse query h rd rp)"
proof -
  have n: "normalize query = q" by (simp add: q_def normalize_def)
  have "\<forall>query'. trim (toLowerCase query') = q \<longrightarrow>
            generateAIResponse query' h rd rp = generateAIResponse query h rd rp"
    by (simp add: generateAIResponse_def normalize_def q_def)
  then show ?thesis
    unfolding r_def resolved_cases n
    by (simp add: finish_fields not_override_reply override_def)
qed

theorem overrides_on_normalized_witness:
  "trim (toLowerCase ''  HeLLo '') = trim (toLowerCase ''hello'')
   \<and> generateAIResponse ''  HeLLo '' () 0 0 = generateAIResponse ''hello'' () 0 0
   \<and> answer (resolved (generateAIResponse ''hello'' () 0 0)) = Some GreetingReply"
proof -
  have e: "trim (toLowerCase ''  HeLLo '') = trim (toLowerCase ''hello'')" by code_simp
  have g: "test greeting_re (trim (toLowerCase ''hello''))" by code_simp
  have t: "\<not> test thanks_re (trim (toLowerCase ''hello''))" by code_simp
  have i: "\<not> test identity_re (trim (toLowerCase ''hello''))" by code_simp
  note w = overrides_on_normalized[where query = "''hello''" and h = "()" and rd = 0 and rp = 0]
  have 1: "answer (resolved (generateAIResponse ''hello'' () 0 0)) = Some GreetingReply"
    using w g t i by blast
  have 2: "generateAIResponse ''  HeLLo '' () 0 0 = generateAIResponse ''hello'' () 0 0"
    using w e by blast
  show ?thesis by (rule conjI[OF e conjI[OF 2 1]])
qed

text \<open>
  C7. The resolved promise does not depend on the conversation history: with the same query
  and the same two random values, any two histories, the empty one included, give the same
  delay and the same answer, confidence and topic.
\<close>

theorem history_unused:
  "generateAIResponse query (h1 :: 'm list) rd rp = generateAIResponse query (h2 :: 'm list) rd rp
   \<and> generateAIResponse query h1 rd rp = generateAIResponse query ([] :: 'm list) rd rp"
  by (simp add: generateAIResponse_def)

text \<open>
  C8, as the specification states it, fails: the extended table has the key
  \<^verbatim>\<open>binary search\<close>, which consists of two words.
\<close>

theorem extended_key_two_words:
  "(''binary search'',
      \<lparr>text_e = ExtText ''binary search'', conf = 0.94, top_e = ''Algorithms''\<rparr>)
     \<in> set extendedTopics
   \<and> js_split ''binary search'' = [''binary'', ''search'']"
  by (simp add: extendedTopics_def)

text \<open>
  C8, amended. The extended table has eight keys; seven consist of a single word, and the last
  one, \<^verbatim>\<open>binary search\<close>, of two.
\<close>

theorem extended_keys_word_counts:
  "map (\<lambda>(kw, d). (kw, length (js_split kw))) extendedTopics =
     [(''array'', 1), (''pointer'', 1), (''oop'', 1), (''sql'', 1), (''complexity'', 1),
      (''bfs'', 1), (''dfs'', 1), (''binary search'', 2)]"
  by (simp add: extendedTopics_def)

text \<open>
  C9. The greeting pattern matches the normalized query exactly when the query starts with a
  greeting token that is followed by the end of the query or by a code unit that is not a
  word character. When a greeting token at the start is followed by a word character, the
  greeting branch leaves the locals unchanged; when the pattern matches, the branch sets the
  greeting reply. "highlights of merge sort" and "supper recipes" do not match, "hi there"
  does.
\<close>

theorem greeting_needs_boundary:
  fixes query :: string and st :: vars
  defines "q \<equiv> normalize query"
  shows "(test greeting_re q \<longleftrightarrow>
            (\<exists>tok rest. q = tok @ rest \<and> greetingToken tok
               \<and> (rest = [] \<or> \<not> isWordChar (hd rest))))
       \<and> (\<forall>tok c rest. q = tok @ c # rest \<and> greetingToken tok \<and> isWordChar c \<longrightarrow>
            greetingStage q st = st)
       \<and> (test greeting_re q \<longrightarrow> greetingStage q st = override GreetingReply)
       \<and> \<not> test greeting_re (normalize ''highlights of merge sort'')
       \<and> \<not> test greeting_re (normalize ''supper recipes'')
       \<and> test greeting_re (normalize ''hi there'')"
proof -
  have 1: "\<not> test greeting_re (normalize ''highlights of merge sort'')" by code_simp
  have 2: "\<not> test greeting_re (normalize ''supper recipes'')" by code_simp
  have 3: "test greeting_re (normalize ''hi there'')" by code_simp
  have 4: "\<forall>tok c rest. q = tok @ c # rest \<and> greetingToken tok \<and> isWordChar c \<longrightarrow>
            greetingStage q st = st"
    using greeting_no_boundary by (auto simp: greetingStage_def)
  show ?thesis
    using 1 2 3 4 greeting_test_iff[of q] by (simp add: greetingStage_def)
qed

theorem greeting_needs_boundary_witness:
  "normalize ''Highlights'' = ''hi'' @ CHR ''g'' # ''hlights''
   \<and> greetingToken ''hi'' \<and> isWordChar CHR ''g''
   \<and> greetingStage (normalize ''Highlights'') initial = initial
   \<and> test greeting_re (normalize ''Good  evening, pilot'')
   \<and> greetingStage (normalize ''Good  evening, pilot'') initial = override GreetingReply"
proof -
  have a: "normalize ''Highlights'' = ''hi'' @ CHR ''g'' # ''hlights''" by code_simp
  have b: "greetingToken ''hi''" by code_simp
  have c: "isWordChar CHR ''g''" by code_simp
  have d: "test greeting_re (normalize ''Good  evening, pilot'')" by code_simp
  note w1 = greeting_needs_boundary[where query = "''Highlights''" and st = initial]
  note w2 = greeting_needs_boundary[where query = "''Good  evening, pilot''" and st = initial]
  have e: "greetingStage (normalize ''Highlights'') initial = initial"
    using w1 a b c by blast
  have f: "greetingStage (normalize ''Good  evening, pilot'') initial = override GreetingReply"
    using w2 d by blast
  show ?thesis by (intro conjI a b c d e f)
qed

text \<open>
  C10. The topic starts as General and the fallback branch assigns only the answer and the
  confidence. The resolved answer is the fallback template exactly when nothing matches the
  normalized query (no primary entry scores, no extended keyword occurs, no override pattern
  matches), and then the resolved topic is General.
\<close>

theorem fallback_topic_general:
  fixes query :: string and h :: 'h and rd rp :: real
  defines "q \<equiv> normalize query"
    and "r \<equiv> resolved (generateAIResponse query h rd rp)"
  shows "topic initial = ''General''
       \<and> (\<forall>st. topic (fallbackStage rp st) = topic st)
       \<and> ((\<exists>pick. answer r = Some (FallbackReply pick)) \<longleftrightarrow> noMatch q)
       \<and> (noMatch q \<longrightarrow> topic r = ''General'')"
proof -
  have t: "noMatch q \<longrightarrow> topic r = ''General''"
    by (simp add: r_def q_def resolved_cases tables_noMatch finish_fields fallback_topic
        initial_def noMatch_def)
  have "(\<exists>pick. answer r = Some (FallbackReply pick)) \<longleftrightarrow> noMatch q"
  proof
    assume "\<exists>pick. answer r = Some (FallbackReply pick)"
    then obtain pick where p: "answer r = Some (FallbackReply pick)" ..
    then have no: "\<not> test identity_re q" "\<not> test thanks_re q" "\<not> test greeting_re q"
      by (auto simp: r_def q_def resolved_cases finish_override split: if_splits)
    with p have "answer (fallbackStage rp (tables q)) = Some (FallbackReply pick)"
      by (simp add: r_def q_def resolved_cases finish_fields)
    from table_answer[OF this] no show "noMatch q"
      by (auto simp: noMatch_def)
  next
    assume n: "noMatch q"
    then show "\<exists>pick. answer r = Some (FallbackReply pick)"
      by (simp add: r_def q_def resolved_cases tables_noMatch finish_fields
          fallbackStage_def initial_def) (simp add: noMatch_def)
  qed
  with t show ?thesis by (simp add: initial_def fallback_topic)
qed

theorem fallback_topic_general_witness:
  "noMatch (normalize ''Quantum PHYSICS!'')
   \<and> topic (resolved (generateAIResponse ''Quantum PHYSICS!'' () 0 0)) = ''General''"
proof -
  have n: "noMatch (normalize ''Quantum PHYSICS!'')" by code_simp
  from fallback_topic_general[where query = "''Quantum PHYSICS!''" and h = "()" and rd = 0 and rp = 0] n
  show ?thesis by simp
qed

end
